theory Spec2Isabelle
  imports Complex_Main
begin

section \<open>Data model\<close>

text \<open>
  Coordinates are numpy numbers in the source (float64, or int64 when a template has
  integer coordinates). A position is modelled as a triple of \<^typ>\<open>real\<close>, and
  \<^verbatim>\<open>np.add\<close>, \<^verbatim>\<open>np.subtract\<close>, \<^verbatim>\<open>np.multiply\<close> and the division on positions are read
  as the operations on reals. The code compares coordinates (\<^verbatim>\<open>Cell.__init__\<close>, the
  extrema of the writer), which gives the same on float64 numbers as on the reals they
  denote, and it derives one integer from them: the segment count that line 155 of
  Lattice.py computes in machine arithmetic. That count is not computed in the model:
  it is a parameter of the chain discretization (see \<open>length_reading\<close>), so that no
  count, id or raised exception of the model depends on arithmetic on reals. Cell
  indices and all counters are Python integers, modelled as \<^typ>\<open>int\<close>.
\<close>

type_synonym vec = "real \<times> real \<times> real"
type_synonym cell_index = "int \<times> int \<times> int"

text \<open>Exceptions that the modelled code can raise.\<close>

datatype error =
  AttributeError | StopIteration | ValueError | UnboundLocalError | OverflowError

text \<open>Lines written to standard output by \<^verbatim>\<open>print\<close>.\<close>

datatype message =
    Point_outside int
  | Importing string
  | Template_missing

text \<open>\<^verbatim>\<open>class Point\<close> and \<^verbatim>\<open>class Connection\<close> of Cell.py.\<close>

record point =
  point_id :: int
  coords :: vec

record connection =
  origin :: int
  partner :: int
  cell_crossings :: cell_index

text \<open>
  \<^verbatim>\<open>class Cell\<close>: the three attributes \<^verbatim>\<open>points\<close>, \<^verbatim>\<open>connections\<close>, \<^verbatim>\<open>dims\<close>. The
  constructor sets them together or not at all, so an object under construction is a
  \<^typ>\<open>'a option\<close> of this record: \<^term>\<open>None\<close> is the object without attributes.
\<close>

record Cell =
  points :: "point list"
  connections :: "connection list"
  dims :: vec

text \<open>
  Persisted templates: a path either does not exist or holds the pickled triple
  (points, connections, dims).
\<close>

type_synonym storage = "string \<rightharpoonup> (point list \<times> connection list \<times> vec)"

subsection \<open>numpy on triples\<close>

definition less_equal_all :: "vec \<Rightarrow> vec \<Rightarrow> bool" where
  \<comment> \<open>\<^verbatim>\<open>all(np.less_equal(a, b))\<close>\<close>
  "less_equal_all a b =
     (case (a, b) of ((x, y, z), (x', y', z')) \<Rightarrow> x \<le> x' \<and> y \<le> y' \<and> z \<le> z')"

definition scale_vec :: "vec \<Rightarrow> real \<Rightarrow> vec" where
  \<comment> \<open>\<^verbatim>\<open>np.multiply(v, k)\<close> and, with \<open>1 / k\<close>, \<^verbatim>\<open>v / k\<close>\<close>
  "scale_vec v k = (case v of (x, y, z) \<Rightarrow> (x * k, y * k, z * k))"

definition add_vec :: "vec \<Rightarrow> vec \<Rightarrow> vec" where
  "add_vec a b = (case (a, b) of ((x, y, z), (x', y', z')) \<Rightarrow> (x + x', y + y', z + z'))"

definition subtract_vec :: "vec \<Rightarrow> vec \<Rightarrow> vec" where
  "subtract_vec a b = (case (a, b) of ((x, y, z), (x', y', z')) \<Rightarrow> (x - x', y - y', z - z'))"

definition cell_times :: "cell_index \<Rightarrow> vec \<Rightarrow> vec" where
  \<comment> \<open>\<^verbatim>\<open>np.multiply(cell, cell_dims)\<close>: an integer triple times a float triple\<close>
  "cell_times c d =
     (case (c, d) of ((i, j, k), (x, y, z)) \<Rightarrow> (of_int i * x, of_int j * y, of_int k * z))"

definition add_cell :: "cell_index \<Rightarrow> cell_index \<Rightarrow> cell_index" where
  "add_cell a b = (case (a, b) of ((i, j, k), (i', j', k')) \<Rightarrow> (i + i', j + j', k + k'))"

definition subtract_cell :: "cell_index \<Rightarrow> cell_index \<Rightarrow> cell_index" where
  "subtract_cell a b = (case (a, b) of ((i, j, k), (i', j', k')) \<Rightarrow> (i - i', j - j', k - k'))"

definition negate_cell :: "cell_index \<Rightarrow> cell_index" where
  \<comment> \<open>\<^verbatim>\<open>np.multiply(crossings, -1)\<close>\<close>
  "negate_cell a = (case a of (i, j, k) \<Rightarrow> (i * (- 1), j * (- 1), k * (- 1)))"

section \<open>Cell.py\<close>

definition import_cell :: "storage \<Rightarrow> string \<Rightarrow> message list \<times> Cell option" where
  \<comment> \<open>\<^verbatim>\<open>Cell._import_cell\<close>: the attributes it sets on \<^verbatim>\<open>self\<close>, and what it prints\<close>
  "import_cell files template =
     (case files template of
        Some (ps, cs, d) \<Rightarrow>
          ([Importing template], Some \<lparr>points = ps, connections = cs, dims = d\<rparr>)
      | None \<Rightarrow> ([Template_missing], None))"

definition Cell_init ::
  "storage \<Rightarrow> point list option \<Rightarrow> connection list option \<Rightarrow> vec \<Rightarrow> string option
    \<Rightarrow> message list \<times> (error + Cell)" where
  \<comment> \<open>\<^verbatim>\<open>Cell.__init__\<close>; the loop over \<^verbatim>\<open>self.points\<close> raises AttributeError when the
      attribute was never set\<close>
  "Cell_init files point_list connection_list dimensions template =
     (let (out, self) =
            (case template of
               None \<Rightarrow>
                 ([], Some \<lparr>points = (case point_list of None \<Rightarrow> [] | Some ps \<Rightarrow> ps),
                            connections = (case connection_list of None \<Rightarrow> [] | Some cs \<Rightarrow> cs),
                            dims = dimensions\<rparr>)
             | Some t \<Rightarrow> import_cell files t)
      in case self of
           None \<Rightarrow> (out, Inl AttributeError)
         | Some c \<Rightarrow>
             (out @ map (\<lambda>p. Point_outside (point_id p))
                      (filter (\<lambda>p. \<not> less_equal_all (coords p) (dims c)) (points c)),
              Inr c))"

section \<open>Lattice.py\<close>

text \<open>
  \<^verbatim>\<open>class Atom\<close>. An Atom object is represented by its fields \<^verbatim>\<open>id\<close>, \<^verbatim>\<open>position\<close>,
  \<^verbatim>\<open>point_type\<close> and \<^verbatim>\<open>owning_cell\<close>, which are never assigned after construction.
  Python compares Atom objects by identity; the builder takes every \<^verbatim>\<open>id\<close> from the
  strictly increasing \<^verbatim>\<open>atom_count\<close>, so two Atom objects of one build differ in their
  \<^verbatim>\<open>id\<close> and comparing the records is comparing the objects (lemma
  \<open>ids_sequential_distinct\<close> below proves that the ids in the atom list are pairwise distinct).
  The one mutable field, \<^verbatim>\<open>bonds\<close>, is a component of the store: the map
  \<open>bonds\<close> of the lattice state, from atoms to their counter.
\<close>

record atom =
  atom_id :: int
  position :: vec
  point_type :: "int option"
  owning_cell :: "cell_index option"

text \<open>An entry of \<^verbatim>\<open>full_bond_list\<close>: \<^verbatim>\<open>dict(bond_id=, point1=, point2=)\<close>.\<close>

record bond =
  bond_id :: int
  point1 :: int
  point2 :: int

text \<open>
  An entry of \<^verbatim>\<open>vector_list\<close>, \<^verbatim>\<open>dict(origin=, partner=)\<close>, is the pair (origin, partner)
  of atoms; an entry of the local \<^verbatim>\<open>mirrored_bond_list\<close>,
  \<^verbatim>\<open>dict(connection=, origin_cell=)\<close>, is the pair (connection, origin cell).
\<close>

type_synonym vector_pair = "atom \<times> atom"
type_synonym mirrored_bond = "connection \<times> cell_index"

record lattice =
  lattice_size :: cell_index
  base_point_list :: "point list"
  base_connection_list :: "connection list"
  cell_dims :: vec
  dangling :: bool
  symmetric :: bool
  prune :: bool
  cell_list :: "cell_index list"
  vector_list :: "vector_pair list"
  full_atom_list :: "atom list"
  full_bond_list :: "bond list"
  atom_count :: int
  bond_count :: int
  float_safety :: real
  bonds :: "atom \<Rightarrow> int"

subsection \<open>Python loops and iterators\<close>

definition py_range :: "int \<Rightarrow> int list" where
  \<comment> \<open>\<^verbatim>\<open>range(n)\<close>\<close>
  "py_range n = map int [0..<nat n]"

definition product3 :: "'a list \<Rightarrow> 'b list \<Rightarrow> 'c list \<Rightarrow> ('a \<times> 'b \<times> 'c) list" where
  \<comment> \<open>\<^verbatim>\<open>list(itertools.product(xs, ys, zs))\<close>: the last component varies fastest\<close>
  "product3 xs ys zs = concat (map (\<lambda>x. concat (map (\<lambda>y. map (\<lambda>z. (x, y, z)) zs) ys)) xs)"

definition cells_of :: "cell_index \<Rightarrow> cell_index list" where
  "cells_of sz = (case sz of (nx, ny, nz) \<Rightarrow> product3 (py_range nx) (py_range ny) (py_range nz))"

fun for_each :: "('a \<Rightarrow> 's \<Rightarrow> error + 's) \<Rightarrow> 'a list \<Rightarrow> 's \<Rightarrow> error + 's" where
  \<comment> \<open>\<^verbatim>\<open>for x in xs: body\<close> over a list the body does not change; an exception ends it\<close>
  "for_each body [] s = Inr s"
| "for_each body (x # xs) s =
     (case body x s of Inl e \<Rightarrow> Inl e | Inr s' \<Rightarrow> for_each body xs s')"

subsection \<open>Phase 1: replication and boundary atoms\<close>

definition create_atom ::
  "vec \<Rightarrow> int option \<Rightarrow> cell_index option \<Rightarrow> lattice \<Rightarrow> atom \<times> lattice" where
  \<comment> \<open>\<^verbatim>\<open>self.atom_count += 1; a = Atom(self.atom_count, ...); self.full_atom_list.append(a)\<close>;
      the constructor sets \<^verbatim>\<open>a.bonds = 0\<close>\<close>
  "create_atom pos pt oc s =
     (let n = atom_count s + 1;
          a = \<lparr>atom_id = n, position = pos, point_type = pt, owning_cell = oc\<rparr>
      in (a, s\<lparr>atom_count := n, full_atom_list := full_atom_list s @ [a],
                bonds := (bonds s)(a := 0)\<rparr>))"

definition replicate_point :: "cell_index \<Rightarrow> point \<Rightarrow> lattice \<Rightarrow> lattice" where
  \<comment> \<open>body of \<^verbatim>\<open>for point in self.base_point_list\<close>, lines 92 to 94\<close>
  "replicate_point current_cell pt s =
     snd (create_atom (add_vec (cell_times current_cell (cell_dims s)) (coords pt))
            (Some (point_id pt)) (Some current_cell) s)"

definition boundary_atom :: "int \<Rightarrow> cell_index \<Rightarrow> lattice \<Rightarrow> error + lattice" where
  \<comment> \<open>lines 102 to 107, and again lines 112 to 121 for the mirrored cell: \<^verbatim>\<open>next\<close> without a
      default raises StopIteration when no template point has the id; the atom is created
      unless one with this (point_type, owning_cell) is in the atom list\<close>
  "boundary_atom pid cell s =
     (case find (\<lambda>item. point_id item = pid) (base_point_list s) of
        None \<Rightarrow> Inl StopIteration
      | Some item \<Rightarrow>
          Inr (case find (\<lambda>atom_check. point_type atom_check = Some pid
                              \<and> owning_cell atom_check = Some cell) (full_atom_list s) of
                 None \<Rightarrow>
                   snd (create_atom (add_vec (cell_times cell (cell_dims s)) (coords item))
                          (Some pid) (Some cell) s)
               | Some _ \<Rightarrow> s))"

definition dangling_connection ::
  "cell_index \<Rightarrow> connection \<Rightarrow> lattice \<times> mirrored_bond list
     \<Rightarrow> error + lattice \<times> mirrored_bond list" where
  \<comment> \<open>body of \<^verbatim>\<open>for connection in self.base_connection_list\<close>, lines 98 to 126\<close>
  "dangling_connection current_cell c = (\<lambda>(s, mirrored_bond_list).
     let target_cell = add_cell current_cell (cell_crossings c) in
     case (if target_cell \<notin> set (cells_of (lattice_size s))
           then boundary_atom (partner c) target_cell s else Inr s) of
       Inl e \<Rightarrow> Inl e
     | Inr s1 \<Rightarrow>
         if symmetric s1 then
           let mirrored_target_cell = subtract_cell current_cell (cell_crossings c) in
           if mirrored_target_cell \<notin> set (cells_of (lattice_size s1)) then
             (case boundary_atom (origin c) mirrored_target_cell s1 of
                Inl e \<Rightarrow> Inl e
              | Inr s2 \<Rightarrow>
                  Inr (s2, mirrored_bond_list @
                         [(\<lparr>origin = partner c, partner = origin c,
                             cell_crossings = negate_cell (cell_crossings c)\<rparr>, current_cell)]))
           else Inr (s1, mirrored_bond_list)
         else Inr (s1, mirrored_bond_list))"

definition phase1_cell ::
  "cell_index \<Rightarrow> lattice \<times> mirrored_bond list \<Rightarrow> error + lattice \<times> mirrored_bond list" where
  \<comment> \<open>body of the first \<^verbatim>\<open>for current_cell in cell_list\<close>, lines 89 to 126\<close>
  "phase1_cell current_cell = (\<lambda>(s, mirrored_bond_list).
     let s1 = fold (replicate_point current_cell) (base_point_list s) s in
     if dangling s1
     then for_each (dangling_connection current_cell) (base_connection_list s1)
            (s1, mirrored_bond_list)
     else Inr (s1, mirrored_bond_list))"

definition phase1 :: "lattice \<Rightarrow> error + lattice \<times> mirrored_bond list" where
  \<comment> \<open>lines 85 to 126\<close>
  "phase1 s = for_each phase1_cell (cells_of (lattice_size s)) (s, [])"

subsection \<open>Phase 2: edge resolution\<close>

definition resolve_connection :: "cell_index \<Rightarrow> connection \<Rightarrow> lattice \<Rightarrow> lattice" where
  \<comment> \<open>body of \<^verbatim>\<open>for connection in connections\<close>, lines 133 to 142; \<^verbatim>\<open>origin.bonds += 1\<close> and
      \<^verbatim>\<open>partner.bonds += 1\<close> run in this order, on one object when the two lookups find the
      same atom\<close>
  "resolve_connection current_cell c s =
     (case (find (\<lambda>atom. owning_cell atom = Some current_cell
                         \<and> point_type atom = Some (origin c)) (full_atom_list s),
            find (\<lambda>atom. owning_cell atom = Some (add_cell current_cell (cell_crossings c))
                         \<and> point_type atom = Some (partner c)) (full_atom_list s)) of
        (Some a, Some b) \<Rightarrow>
          (let bonds1 = (bonds s)(a := bonds s a + 1);
               bonds2 = bonds1(b := bonds1 b + 1)
           in s\<lparr>bonds := bonds2, vector_list := vector_list s @ [(a, b)]\<rparr>)
      | _ \<Rightarrow> s)"

definition phase2_cell :: "mirrored_bond list \<Rightarrow> cell_index \<Rightarrow> lattice \<Rightarrow> lattice" where
  \<comment> \<open>body of the second \<^verbatim>\<open>for current_cell in cell_list\<close>, lines 129 to 142\<close>
  "phase2_cell mirrored_bond_list current_cell s =
     fold (resolve_connection current_cell)
       (base_connection_list s
          @ map fst (filter (\<lambda>item. snd item = current_cell) mirrored_bond_list)) s"

definition phase2 :: "mirrored_bond list \<Rightarrow> lattice \<Rightarrow> lattice" where
  "phase2 mirrored_bond_list s =
     fold (phase2_cell mirrored_bond_list) (cells_of (lattice_size s)) s"

subsection \<open>Pruning\<close>

definition remove_connection :: "vector_pair \<Rightarrow> lattice \<Rightarrow> error + lattice" where
  \<comment> \<open>\<^verbatim>\<open>self.vector_list.remove(connection)\<close>: deletes the first equal entry (two entries
      are equal when they hold the same two atoms), ValueError when there is none\<close>
  "remove_connection connection s =
     (if connection \<in> set (vector_list s)
      then Inr (s\<lparr>vector_list := remove1 connection (vector_list s)\<rparr>)
      else Inl ValueError)"

definition decrement_bonds :: "atom \<Rightarrow> lattice \<Rightarrow> lattice" where
  \<comment> \<open>\<^verbatim>\<open>a.bonds -= 1\<close>\<close>
  "decrement_bonds a s = s\<lparr>bonds := (bonds s)(a := bonds s a - 1)\<rparr>"

definition test_origin :: "atom \<Rightarrow> vector_pair \<Rightarrow> lattice \<Rightarrow> error + lattice" where
  \<comment> \<open>lines 185 to 187: \<^verbatim>\<open>if connection['origin'] == dangler\<close>\<close>
  "test_origin dangler connection s =
     (if fst connection = dangler
      then remove_connection connection (decrement_bonds (snd connection) s)
      else Inr s)"

definition test_partner :: "atom \<Rightarrow> vector_pair \<Rightarrow> lattice \<Rightarrow> error + lattice" where
  \<comment> \<open>lines 188 to 190: \<^verbatim>\<open>if connection['partner'] == dangler\<close>\<close>
  "test_partner dangler connection s =
     (if snd connection = dangler
      then remove_connection connection (decrement_bonds (fst connection) s)
      else Inr s)"

definition prune_connection :: "atom \<Rightarrow> vector_pair \<Rightarrow> lattice \<Rightarrow> error + lattice" where
  \<comment> \<open>body of \<^verbatim>\<open>for connection in self.vector_list\<close>: the two \<^verbatim>\<open>if\<close>s in sequence, the
      second tested also after the first has fired\<close>
  "prune_connection dangler connection s =
     (case test_origin dangler connection s of
        Inl e \<Rightarrow> Inl e
      | Inr s1 \<Rightarrow> test_partner dangler connection s1)"

text \<open>
  The \<^verbatim>\<open>for\<close> loop of \<^verbatim>\<open>_prune_vectors\<close> iterates over the list that its body shortens.
  A Python list iterator holds an index: each round it stops when the index has reached
  the current length, and otherwise yields the entry at the index and increments it. The
  control points of \<^verbatim>\<open>_prune_vectors\<close> are therefore: \<open>Scan\<close>, at the head of
  \<^verbatim>\<open>while True\<close>; and \<open>Iterating dangler i\<close>, at the head of the \<^verbatim>\<open>for\<close> loop with the
  iterator at index \<open>i\<close>. \<open>prune_next\<close> runs the code from one control point to the
  next; \<^term>\<open>None\<close> is the \<^verbatim>\<open>break\<close>.
\<close>

datatype prune_point = Scan | Iterating atom nat

fun prune_next :: "prune_point \<times> lattice \<Rightarrow> (error + prune_point \<times> lattice) option" where
  "prune_next (Scan, s) =
     (case find (\<lambda>atom. bonds s atom = 1) (full_atom_list s) of
        None \<Rightarrow> None
      | Some dangler \<Rightarrow> Some (Inr (Iterating dangler 0, s)))"
| "prune_next (Iterating dangler i, s) =
     (if i < length (vector_list s) then
        (case prune_connection dangler (vector_list s ! i) s of
           Inl e \<Rightarrow> Some (Inl e)
         | Inr s' \<Rightarrow> Some (Inr (Iterating dangler (Suc i), s')))
      else if dangler \<in> set (full_atom_list s)
      then Some (Inr (Scan, s\<lparr>full_atom_list := remove1 dangler (full_atom_list s)\<rparr>))
      else Some (Inl ValueError))"

function prune_run :: "prune_point \<times> lattice \<Rightarrow> error + lattice" where
  "prune_run cfg =
     (case prune_next cfg of
        None \<Rightarrow> Inr (snd cfg)
      | Some (Inl e) \<Rightarrow> Inl e
      | Some (Inr cfg') \<Rightarrow> prune_run cfg')"
  by pat_completeness auto
termination
proof (relation "measures [\<lambda>(p, s). length (full_atom_list s),
    \<lambda>(p, s). case p of Scan \<Rightarrow> length (vector_list s) + 2
                      | Iterating d i \<Rightarrow> Suc (length (vector_list s)) - i]", goal_cases)
  case 1
  show ?case by simp
next
  case (2 cfg x cfg')
  obtain p s where cfg: "cfg = (p, s)" by (cases cfg)
  show ?case
  proof (cases p)
    case Scan
    with 2 cfg show ?thesis by (auto split: option.splits)
  next
    case (Iterating d i)
    have shorter: "length xs - Suc 0 < length xs" if "y \<in> set xs" for y :: atom and xs
      using that by (cases xs) auto
    from 2 cfg Iterating show ?thesis
      by (auto simp: prune_connection_def test_origin_def test_partner_def
            remove_connection_def decrement_bonds_def length_remove1 shorter
            split: if_splits sum.splits)
  qed
qed

declare prune_run.simps [simp del]

definition prune_vectors :: "lattice \<Rightarrow> error + lattice" where
  \<comment> \<open>\<^verbatim>\<open>Lattice._prune_vectors\<close>\<close>
  "prune_vectors s = prune_run (Scan, s)"

inductive prune_reaches :: "prune_point \<times> lattice \<Rightarrow> prune_point \<times> lattice \<Rightarrow> bool"
  for cfg :: "prune_point \<times> lattice" where
  \<comment> \<open>the control points, with their states, that the loop started at \<open>cfg\<close> passes\<close>
  start: "prune_reaches cfg cfg"
| step: "prune_reaches cfg cfg1 \<Longrightarrow> prune_next cfg1 = Some (Inr cfg2) \<Longrightarrow> prune_reaches cfg cfg2"

subsection \<open>Chain discretization\<close>

text \<open>
  Line 155,
  \<^verbatim>\<open>int(np.floor(np.sqrt(np.sum(np.square(vector))) + self.float_safety))\<close>, is evaluated
  by numpy in float64 (the squares in int64 when the positions are integer arrays). Its
  value is the floor of the Euclidean length plus \<^verbatim>\<open>float_safety\<close> only up to rounding
  and wrap-around, and \<^verbatim>\<open>int\<close> raises OverflowError for an infinite and ValueError for a
  NaN operand. That arithmetic is not modelled. A \<open>length_reading\<close> stands for it: for
  the two atoms of a vector-pair it gives what line 155 yields for them, an integer or
  the exception raised. Every definition and theorem below is for an arbitrary reading.
\<close>

type_synonym length_reading = "vector_pair \<Rightarrow> error + int"

definition populate_iteration ::
  "vector_pair \<Rightarrow> int \<Rightarrow> vec \<Rightarrow> int \<Rightarrow> lattice \<times> atom option
     \<Rightarrow> error + lattice \<times> atom option" where
  \<comment> \<open>body of \<^verbatim>\<open>for i in range(vector_length)\<close>, lines 160 to 174; the local \<^verbatim>\<open>new_atom\<close>
      keeps its value from one round to the next and is unbound before the first
      assignment\<close>
  "populate_iteration atoms n step i = (\<lambda>(s, new_atom).
     let (s1, new_atom1, bond_origin) =
           (if i < n - 1 then
              let (a, s') = create_atom
                    (add_vec (position (fst atoms)) (scale_vec step (of_int (i + 1))))
                    None None s
              in (s', Some a, atom_id a)
            else (s, new_atom, atom_id (snd atoms)))
     in case (if i = 0 then Inr (atom_id (fst atoms))
              else case new_atom1 of
                     None \<Rightarrow> Inl UnboundLocalError
                   | Some a \<Rightarrow> if i < n - 1 then Inr (atom_id a - 1) else Inr (atom_id a)) of
          Inl e \<Rightarrow> Inl e
        | Inr bond_partner \<Rightarrow>
            Inr (s1\<lparr>bond_count := bond_count s1 + 1,
                     full_bond_list := full_bond_list s1 @
                       [\<lparr>bond_id = bond_count s1 + 1, point1 = bond_origin,
                         point2 = bond_partner\<rparr>]\<rparr>,
                 new_atom1))"

definition populate_vector ::
  "length_reading \<Rightarrow> vector_pair \<Rightarrow> lattice \<Rightarrow> error + lattice" where
  \<comment> \<open>\<^verbatim>\<open>Lattice._populate_vector\<close>: line 155 is the reading, and an exception it raises
      leaves the lattice as it was; lines 156 and 157 raise a count below 1 to 1\<close>
  "populate_vector reading atoms s =
     (case reading atoms of
        Inl e \<Rightarrow> Inl e
      | Inr k \<Rightarrow>
          (let v = subtract_vec (position (snd atoms)) (position (fst atoms));
               n = (if k < 1 then 1 else k);
               step = scale_vec v (1 / of_int n)
           in case for_each (populate_iteration atoms n step) (py_range n) (s, None) of
                Inl e \<Rightarrow> Inl e
              | Inr (s', _) \<Rightarrow> Inr s'))"

subsection \<open>The build\<close>

definition build_lists :: "length_reading \<Rightarrow> lattice \<Rightarrow> error + lattice" where
  \<comment> \<open>\<^verbatim>\<open>Lattice.build_lists\<close>\<close>
  "build_lists reading s =
     (case phase1 s of
        Inl e \<Rightarrow> Inl e
      | Inr (s1, mirrored_bond_list) \<Rightarrow>
          (let s2 = phase2 mirrored_bond_list s1 in
           case (if prune s2 then prune_vectors s2 else Inr s2) of
             Inl e \<Rightarrow> Inl e
           | Inr s3 \<Rightarrow> for_each (populate_vector reading) (vector_list s3) s3))"

definition scale_points :: "point list \<Rightarrow> real \<Rightarrow> point list" where
  \<comment> \<open>lines 58 and 59: every Point object of the list gets new \<^verbatim>\<open>coords\<close>\<close>
  "scale_points ps k = map (\<lambda>p. p\<lparr>coords := scale_vec (coords p) k\<rparr>) ps"

definition new_lattice ::
  "Cell \<Rightarrow> cell_index \<Rightarrow> real \<Rightarrow> bool \<Rightarrow> bool \<Rightarrow> bool \<Rightarrow> lattice" where
  \<comment> \<open>the attributes of the Lattice after lines 55 to 72, before \<^verbatim>\<open>build_lists\<close>\<close>
  "new_lattice cell sz scale dang symm prun =
     \<lparr>lattice_size = sz,
      base_point_list = scale_points (points cell) scale,
      base_connection_list = connections cell,
      cell_dims = scale_vec (dims cell) scale,
      dangling = dang, symmetric = symm, prune = prun,
      cell_list = cells_of sz,
      vector_list = [], full_atom_list = [], full_bond_list = [],
      atom_count = 0, bond_count = 0,
      float_safety = 1 / 1000000,
      bonds = (\<lambda>_. 0)\<rparr>"

definition Lattice_init ::
  "length_reading \<Rightarrow> Cell \<Rightarrow> cell_index \<Rightarrow> real \<Rightarrow> bool \<Rightarrow> bool \<Rightarrow> bool
     \<Rightarrow> Cell \<times> (error + lattice)" where
  \<comment> \<open>\<^verbatim>\<open>Lattice.__init__\<close>. \<^verbatim>\<open>self.base_point_list = cell.points\<close> is the Cell's own list of
      its own Point objects, so the assignments to \<^verbatim>\<open>point.coords\<close> change the Cell: the
      first component is the Cell as the caller finds it afterwards, also when the build
      raises\<close>
  "Lattice_init reading cell sz scale dang symm prun =
     (cell\<lparr>points := scale_points (points cell) scale\<rparr>,
      build_lists reading (new_lattice cell sz scale dang symm prun))"

section \<open>LammpsDataWriter.py\<close>

text \<open>
  The lines of the data file, before formatting: each constructor is one format string
  of the source with its arguments. Files written are a map from file names to their
  lines.
\<close>

datatype line =
    Text string
  | Count nat string
  | Bounds real real string
  | Atom_line int int real real real
  | Bond_line int int int

definition py_max :: "real list \<Rightarrow> error + real" where
  \<comment> \<open>\<^verbatim>\<open>max(generator)\<close>: ValueError on an empty sequence\<close>
  "py_max xs = (case xs of [] \<Rightarrow> Inl ValueError | x # ys \<Rightarrow> Inr (fold max ys x))"

definition py_min :: "real list \<Rightarrow> error + real" where
  "py_min xs = (case xs of [] \<Rightarrow> Inl ValueError | x # ys \<Rightarrow> Inr (fold min ys x))"

definition component :: "nat \<Rightarrow> vec \<Rightarrow> real" where
  \<comment> \<open>\<^verbatim>\<open>position[i]\<close> for \<open>i\<close> in \<^verbatim>\<open>range(3)\<close>\<close>
  "component i v = (case v of (x, y, z) \<Rightarrow> if i = 0 then x else if i = 1 then y else z)"

definition bounding_box :: "atom list \<Rightarrow> error + real list \<times> real list" where
  \<comment> \<open>lines 23 to 26: the lists (boxmin, boxmax)\<close>
  "bounding_box atoms =
     for_each (\<lambda>i (boxmin, boxmax).
         case py_max (map (\<lambda>atom. component i (position atom) + 1) atoms) of
           Inl e \<Rightarrow> Inl e
         | Inr hi \<Rightarrow>
             (case py_min (map (\<lambda>atom. component i (position atom) - 1) atoms) of
                Inl e \<Rightarrow> Inl e
              | Inr lo \<Rightarrow> Inr (boxmin @ [lo], boxmax @ [hi])))
       [0, 1, 2] ([], [])"

definition atom_line :: "atom \<Rightarrow> line" where
  \<comment> \<open>lines 48 to 52: a tuple \<^verbatim>\<open>owning_cell\<close> is true, \<^verbatim>\<open>None\<close> is false\<close>
  "atom_line a =
     (case position a of (x, y, z) \<Rightarrow>
        Atom_line (atom_id a) (if owning_cell a \<noteq> None then 1 else 2) x y z)"

definition data_file_lines :: "atom list \<Rightarrow> bond list \<Rightarrow> real list \<Rightarrow> real list \<Rightarrow> line list" where
  \<comment> \<open>lines 28 to 59\<close>
  "data_file_lines atoms bnds boxmin boxmax =
     [Text ''LAMMPS data file through AGAR'', Text [],
      Count (length atoms) ''atoms'', Text ''2 atom types'',
      Count (length bnds) ''bonds'', Text ''1 bond types'']
     @ [Text []]
     @ [Bounds (boxmin ! 0) (boxmax ! 0) ''xlo xhi'',
        Bounds (boxmin ! 1) (boxmax ! 1) ''ylo yhi'',
        Bounds (boxmin ! 2) (boxmax ! 2) ''zlo zhi'']
     @ [Text []]
     @ [Text ''Masses'', Text [], Text ''1 1'', Text ''2 1'']
     @ [Text []]
     @ ([Text ''Atoms # full'', Text []] @ map atom_line atoms)
     @ [Text []]
     @ ([Text ''Bonds'', Text []]
        @ map (\<lambda>b. Bond_line (bond_id b) (point1 b) (point2 b)) bnds)"

definition LammpsDataWriter_init ::
  "lattice \<Rightarrow> string \<Rightarrow> (string \<rightharpoonup> line list) \<Rightarrow> (string \<rightharpoonup> line list) \<times> error option" where
  \<comment> \<open>\<^verbatim>\<open>LammpsDataWriter.__init__\<close>: the files afterwards, and the exception raised if any;
      the file is opened only after all lines are computed\<close>
  "LammpsDataWriter_init lat filename files =
     (case bounding_box (full_atom_list lat) of
        Inl e \<Rightarrow> (files, Some e)
      | Inr (boxmin, boxmax) \<Rightarrow>
          (files(filename \<mapsto>
             data_file_lines (full_atom_list lat) (full_bond_list lat) boxmin boxmax), None))"

section \<open>Properties of lattice states\<close>

definition atom_info :: "atom \<Rightarrow> vec \<times> int option \<times> cell_index option" where
  \<comment> \<open>position and tags of an atom, without its id\<close>
  "atom_info a = (position a, point_type a, owning_cell a)"

definition ids_sequential :: "lattice \<Rightarrow> bool" where
  \<comment> \<open>the atoms of the list carry the ids 1, 2, ... in order, and \<^verbatim>\<open>atom_count\<close> is their
      number\<close>
  "ids_sequential s \<longleftrightarrow>
     atom_count s = int (length (full_atom_list s))
     \<and> map atom_id (full_atom_list s) = map int [1..<Suc (length (full_atom_list s))]"

definition same_setup :: "lattice \<Rightarrow> lattice \<Rightarrow> bool" where
  \<comment> \<open>the attributes that \<^verbatim>\<open>build_lists\<close> only reads\<close>
  "same_setup s s' \<longleftrightarrow>
     lattice_size s' = lattice_size s \<and> base_point_list s' = base_point_list s
     \<and> base_connection_list s' = base_connection_list s \<and> cell_dims s' = cell_dims s
     \<and> dangling s' = dangling s \<and> symmetric s' = symmetric s \<and> prune s' = prune s
     \<and> float_safety s' = float_safety s"

definition replicated ::
  "lattice \<Rightarrow> cell_index list \<Rightarrow> (vec \<times> int option \<times> cell_index option) list" where
  \<comment> \<open>one entry per cell and template point, cell by cell\<close>
  "replicated s cs =
     concat (map (\<lambda>c. map (\<lambda>p. (add_vec (cell_times c (cell_dims s)) (coords p),
                                  Some (point_id p), Some c)) (base_point_list s)) cs)"

definition references :: "vector_pair list \<Rightarrow> atom \<Rightarrow> nat" where
  \<comment> \<open>how often the entries of a vector list name an atom, as origin or as partner\<close>
  "references vl a = length (filter (\<lambda>c. fst c = a) vl) + length (filter (\<lambda>c. snd c = a) vl)"

definition unbonded :: "lattice \<Rightarrow> bool" where
  \<comment> \<open>no edge yet: the state of Phase 1\<close>
  "unbonded s \<longleftrightarrow> vector_list s = [] \<and> (\<forall>a. bonds s a = 0)"

definition degrees_linked :: "lattice \<Rightarrow> bool" where
  \<comment> \<open>every atom of the list has as its \<^verbatim>\<open>bonds\<close> the number of its references\<close>
  "degrees_linked s \<longleftrightarrow>
     (\<forall>a \<in> set (full_atom_list s). bonds s a = int (references (vector_list s) a))"

definition degrees_nonnegative :: "lattice \<Rightarrow> bool" where
  "degrees_nonnegative s \<longleftrightarrow> (\<forall>a \<in> set (full_atom_list s). 0 \<le> bonds s a)"

definition endpoints_listed :: "lattice \<Rightarrow> bool" where
  \<comment> \<open>the atom list has no atom twice and holds both atoms of every vector-pair\<close>
  "endpoints_listed s \<longleftrightarrow>
     distinct (full_atom_list s)
     \<and> (\<forall>c \<in> set (vector_list s).
           fst c \<in> set (full_atom_list s) \<and> snd c \<in> set (full_atom_list s))"

definition phase1_ok :: "lattice \<Rightarrow> lattice \<Rightarrow> bool" where
  \<comment> \<open>what every step of Phase 1 keeps\<close>
  "phase1_ok s s' \<longleftrightarrow>
     same_setup s s' \<and> (ids_sequential s \<longrightarrow> ids_sequential s')
     \<and> (unbonded s \<longrightarrow> unbonded s')"

definition phase2_inv :: "lattice \<Rightarrow> bool" where
  \<comment> \<open>what every step of Phase 2 keeps\<close>
  "phase2_inv s \<longleftrightarrow>
     endpoints_listed s \<and> (\<forall>a. bonds s a = int (references (vector_list s) a))"

text \<open>
  The invariant of the pruning loop. At the head of \<^verbatim>\<open>while True\<close> the counters are
  linked to the vector list. Inside the \<^verbatim>\<open>for\<close> loop this holds for every atom but the
  dangler, whose counter stays 1 while its one vector-pair is either still ahead of the
  iterator or already removed.
\<close>

fun prune_inv :: "prune_point \<times> lattice \<Rightarrow> bool" where
  "prune_inv (Scan, s) \<longleftrightarrow> endpoints_listed s \<and> degrees_linked s"
| "prune_inv (Iterating d i, s) \<longleftrightarrow>
     endpoints_listed s \<and> d \<in> set (full_atom_list s) \<and> bonds s d = 1
     \<and> (\<forall>a \<in> set (full_atom_list s).
           a \<noteq> d \<longrightarrow> bonds s a = int (references (vector_list s) a))
     \<and> (references (vector_list s) d = 0
          \<or> references (vector_list s) d = 1
             \<and> (\<forall>j < i. j < length (vector_list s)
                   \<longrightarrow> fst (vector_list s ! j) \<noteq> d \<and> snd (vector_list s ! j) \<noteq> d))"

definition outputs :: "lattice \<Rightarrow> atom list \<times> bond list" where
  \<comment> \<open>what a build hands to the formatter\<close>
  "outputs s = (full_atom_list s, full_bond_list s)"







section \<open>Example templates\<close>

definition length_two :: length_reading where
  \<comment> \<open>the reading for atoms at distance 2: in float64 the square root of 4.0 is 2.0 and
      the floor of 2.000001 is 2\<close>
  "length_two = (\<lambda>atoms. Inr 2)"


definition rod_template :: Cell where
  \<comment> \<open>two points at distance 2, joined inside the cell\<close>
  "rod_template =
     \<lparr>points = [\<lparr>point_id = 1, coords = (0, 0, 0)\<rparr>, \<lparr>point_id = 2, coords = (2, 0, 0)\<rparr>],
      connections = [\<lparr>origin = 1, partner = 2, cell_crossings = (0, 0, 0)\<rparr>],
      dims = (4, 4, 4)\<rparr>"

definition crossing_template :: Cell where
  \<comment> \<open>two points, joined across the +x face of the cell\<close>
  "crossing_template =
     \<lparr>points = [\<lparr>point_id = 1, coords = (0, 0, 0)\<rparr>, \<lparr>point_id = 2, coords = (1 / 2, 0, 0)\<rparr>],
      connections = [\<lparr>origin = 1, partner = 2, cell_crossings = (1, 0, 0)\<rparr>],
      dims = (1, 1, 1)\<rparr>"

definition ring_template :: Cell where
  \<comment> \<open>two points joined by two connections, one in each direction\<close>
  "ring_template =
     \<lparr>points = [\<lparr>point_id = 1, coords = (0, 0, 0)\<rparr>, \<lparr>point_id = 2, coords = (2, 0, 0)\<rparr>],
      connections = [\<lparr>origin = 1, partner = 2, cell_crossings = (0, 0, 0)\<rparr>,
                     \<lparr>origin = 2, partner = 1, cell_crossings = (0, 0, 0)\<rparr>],
      dims = (4, 4, 4)\<rparr>"

section \<open>Loading a template\<close>

lemma Cell_init_missing_template:
  "files t = None \<Longrightarrow>
     Cell_init files pl cl d (Some t) = ([Template_missing], Inl AttributeError)"
  by (simp add: Cell_init_def import_cell_def)

lemma Cell_init_lists:
  "snd (Cell_init files pl cl d None) =
     Inr \<lparr>points = (case pl of None \<Rightarrow> [] | Some ps \<Rightarrow> ps),
          connections = (case cl of None \<Rightarrow> [] | Some cs \<Rightarrow> cs), dims = d\<rparr>"
  by (simp add: Cell_init_def)

text \<open>
  Claim C5. Constructing a Cell from a template path that does not exist prints the
  warning and is then expected to complete with an empty template. In the code the
  warning is printed, but no attribute is set, and the constructor's loop over
  \<^verbatim>\<open>self.points\<close> raises AttributeError: construction does not complete.
\<close>

theorem Cell_init_missing_path_raises:
  "Cell_init Map.empty None None (1, 1, 1) (Some ''diamond.pickle'')
     = ([Template_missing], Inl AttributeError)"
  by (simp add: Cell_init_def import_cell_def)

section \<open>The template during a build\<close>

lemma Lattice_init_cell:
  "fst (Lattice_init reading cell sz scale dang symm prun)
     = cell\<lparr>points := scale_points (points cell) scale\<rparr>"
  by (simp add: Lattice_init_def)

lemma Lattice_init_keeps_connections_dims:
  "connections (fst (Lattice_init reading cell sz scale dang symm prun)) = connections cell
   \<and> dims (fst (Lattice_init reading cell sz scale dang symm prun)) = dims cell"
  by (simp add: Lattice_init_def)

lemma scale_points_unit: "scale_points ps 1 = ps"
  by (induction ps) (auto simp: scale_points_def scale_vec_def)

text \<open>
  Claim C6. Constructing a Lattice is expected to leave the Cell's points, connections and
  dimensions as they were, also with a scale factor other than 1. In the code the
  dimensions are scaled into a new value, but the points are scaled in place through the
  shared list: after a build with scale 2 the Cell's point that was at (1, 1, 1) is at
  (2, 2, 2), while its dimensions are still (1, 1, 1).
\<close>

theorem Lattice_init_scales_cell_points:
  "fst (Lattice_init reading
          \<lparr>points = [\<lparr>point_id = 1, coords = (1, 1, 1)\<rparr>], connections = [], dims = (1, 1, 1)\<rparr>
          (1, 1, 1) 2 False True False)
     = \<lparr>points = [\<lparr>point_id = 1, coords = (2, 2, 2)\<rparr>], connections = [], dims = (1, 1, 1)\<rparr>"
  by (simp add: Lattice_init_def scale_points_def scale_vec_def)

section \<open>Writing an empty lattice\<close>

lemma bounding_box_empty: "bounding_box [] = Inl ValueError"
  by (simp add: bounding_box_def py_max_def)

lemma bounding_box_nonempty: "atoms \<noteq> [] \<Longrightarrow> \<exists>lo hi. bounding_box atoms = Inr (lo, hi)"
  by (cases atoms) (simp_all add: bounding_box_def py_max_def py_min_def)

text \<open>
  Claim C10. A LammpsDataWriter constructed from a lattice whose atom list is empty raises
  ValueError while computing the bounding box (the maximum over an empty sequence) and
  writes no file; with a non-empty atom list it raises nothing and writes the file.
\<close>

theorem LammpsDataWriter_init_empty:
  "(full_atom_list lat = [] \<longrightarrow>
      LammpsDataWriter_init lat filename files = (files, Some ValueError))
   \<and> (full_atom_list lat \<noteq> [] \<longrightarrow>
        snd (LammpsDataWriter_init lat filename files) = None
        \<and> fst (LammpsDataWriter_init lat filename files) filename \<noteq> None)"
proof (intro conjI impI)
  assume "full_atom_list lat = []"
  then show "LammpsDataWriter_init lat filename files = (files, Some ValueError)"
    by (simp add: LammpsDataWriter_init_def bounding_box_empty)
next
  assume "full_atom_list lat \<noteq> []"
  then obtain lo hi where "bounding_box (full_atom_list lat) = Inr (lo, hi)"
    using bounding_box_nonempty by blast
  then show "snd (LammpsDataWriter_init lat filename files) = None"
    and "fst (LammpsDataWriter_init lat filename files) filename \<noteq> None"
    by (simp_all add: LammpsDataWriter_init_def)
qed

theorem LammpsDataWriter_init_empty_witness:
  "build_lists length_two (new_lattice \<lparr>points = [], connections = [], dims = (1, 1, 1)\<rparr>
                  (1, 1, 1) 1 False True False)
     = Inr (new_lattice \<lparr>points = [], connections = [], dims = (1, 1, 1)\<rparr>
              (1, 1, 1) 1 False True False)
   \<and> LammpsDataWriter_init
        (new_lattice \<lparr>points = [], connections = [], dims = (1, 1, 1)\<rparr>
           (1, 1, 1) 1 False True False)
        ''AGAR_out.data'' Map.empty = (Map.empty, Some ValueError)
   \<and> snd (LammpsDataWriter_init
        ((new_lattice \<lparr>points = [], connections = [], dims = (1, 1, 1)\<rparr>
            (1, 1, 1) 1 False True False)
          \<lparr>full_atom_list := [\<lparr>atom_id = 1, position = (0, 0, 0), point_type = Some 1,
                                owning_cell = Some (0, 0, 0)\<rparr>]\<rparr>)
        ''AGAR_out.data'' Map.empty) = None"
  using LammpsDataWriter_init_empty
      [of "new_lattice \<lparr>points = [], connections = [], dims = (1, 1, 1)\<rparr>
             (1, 1, 1) 1 False True False" "''AGAR_out.data''" Map.empty]
    LammpsDataWriter_init_empty
      [of "(new_lattice \<lparr>points = [], connections = [], dims = (1, 1, 1)\<rparr>
              (1, 1, 1) 1 False True False)
            \<lparr>full_atom_list := [\<lparr>atom_id = 1, position = (0, 0, 0), point_type = Some 1,
                                  owning_cell = Some (0, 0, 0)\<rparr>]\<rparr>"
          "''AGAR_out.data''" Map.empty]
  by (simp add: build_lists_def phase1_def phase1_cell_def phase2_def phase2_cell_def
        new_lattice_def cells_of_def product3_def py_range_def scale_points_def)

section \<open>Loops\<close>

lemma fold_invariant:
  "P s \<Longrightarrow> (\<And>x s. x \<in> set xs \<Longrightarrow> P s \<Longrightarrow> P (f x s)) \<Longrightarrow> P (fold f xs s)"
  by (induction xs arbitrary: s) auto

lemma for_each_invariant:
  "for_each f xs s = Inr s' \<Longrightarrow> P s
     \<Longrightarrow> (\<And>x s s'. x \<in> set xs \<Longrightarrow> P s \<Longrightarrow> f x s = Inr s' \<Longrightarrow> P s') \<Longrightarrow> P s'"
proof (induction xs arbitrary: s)
  case Nil
  then show ?case by simp
next
  case (Cons x xs)
  from Cons.prems(1) obtain s1 where s1: "f x s = Inr s1" and rest: "for_each f xs s1 = Inr s'"
    by (auto split: sum.splits)
  have "P s1" using Cons.prems(2,3) s1 by auto
  with rest show ?case using Cons.IH Cons.prems(3) by (metis list.set_intros(2))
qed

lemma for_each_total:
  "(\<And>x s. x \<in> set xs \<Longrightarrow> \<exists>s'. f x s = Inr s') \<Longrightarrow> \<exists>s'. for_each f xs s = Inr s'"
proof (induction xs arbitrary: s)
  case Nil
  then show ?case by simp
next
  case (Cons x xs)
  then obtain s1 where "f x s = Inr s1" by (meson list.set_intros(1))
  moreover have "\<exists>s'. for_each f xs s1 = Inr s'" using Cons by (meson list.set_intros(2))
  ultimately show ?case by auto
qed

section \<open>Phase 1 without dangling bonds\<close>

lemma same_setup_refl [simp]: "same_setup s s"
  by (simp add: same_setup_def)
lemma same_setup_trans: "same_setup s s1 \<Longrightarrow> same_setup s1 s2 \<Longrightarrow> same_setup s s2"
  by (simp add: same_setup_def)

lemma create_atom_setup [simp]: "same_setup s (snd (create_atom pos pt oc s))"
  by (simp add: create_atom_def Let_def same_setup_def)

lemma create_atom_atoms:
  "full_atom_list (snd (create_atom pos pt oc s))
     = full_atom_list s @ [\<lparr>atom_id = atom_count s + 1, position = pos, point_type = pt, owning_cell = oc\<rparr>]"
  by (simp add: create_atom_def Let_def)

lemma create_atom_ids: "ids_sequential s \<Longrightarrow> ids_sequential (snd (create_atom pos pt oc s))"
  by (simp add: create_atom_def Let_def ids_sequential_def)

lemma replicate_fold:
  "same_setup s (fold (replicate_point c) pts s)
   \<and> map atom_info (full_atom_list (fold (replicate_point c) pts s))
       = map atom_info (full_atom_list s)
         @ map (\<lambda>p. (add_vec (cell_times c (cell_dims s)) (coords p), Some (point_id p), Some c)) pts
   \<and> (ids_sequential s \<longrightarrow> ids_sequential (fold (replicate_point c) pts s))"
proof (induction pts arbitrary: s)
  case Nil
  then show ?case by simp
next
  case (Cons p pts)
  let ?s1 = "replicate_point c p s"
  have 1: "same_setup s ?s1" by (simp add: replicate_point_def)
  have 2: "map atom_info (full_atom_list ?s1) = map atom_info (full_atom_list s) @ [(add_vec (cell_times c (cell_dims s)) (coords p), Some (point_id p), Some c)]"
    by (simp add: replicate_point_def create_atom_atoms atom_info_def)
  have 3: "ids_sequential s \<longrightarrow> ids_sequential ?s1"
    by (simp add: replicate_point_def create_atom_ids)
  from Cons.IH[of ?s1] 1 2 3 show ?case
    by (auto simp: same_setup_def)
qed

lemma length_product3: "length (product3 xs ys zs) = length xs * length ys * length zs"
  by (induction xs) (simp_all add: product3_def length_concat comp_def sum_list_triv algebra_simps)

lemma length_cells_of: "length (cells_of (nx, ny, nz)) = nat nx * nat ny * nat nz"
  by (simp add: cells_of_def length_product3 py_range_def)


lemma phase1_cells_plain:
  assumes "\<not> dangling s"
  shows "\<exists>s'. for_each phase1_cell cs (s, m) = Inr (s', m)
           \<and> same_setup s s'
           \<and> map atom_info (full_atom_list s') = map atom_info (full_atom_list s) @ replicated s cs
           \<and> (ids_sequential s \<longrightarrow> ids_sequential s')"
  using assms
proof (induction cs arbitrary: s)
  case Nil
  then show ?case by (simp add: replicated_def)
next
  case (Cons c cs)
  let ?s1 = "fold (replicate_point c) (base_point_list s) s"
  note r = replicate_fold [of s c "base_point_list s"]
  from r Cons.prems have nd: "\<not> dangling ?s1" by (simp add: same_setup_def)
  have step: "phase1_cell c (s, m) = Inr (?s1, m)"
    using nd by (simp add: phase1_cell_def Let_def)
  from Cons.IH [OF nd] obtain s' where s':
    "for_each phase1_cell cs (?s1, m) = Inr (s', m)" "same_setup ?s1 s'"
    "map atom_info (full_atom_list s') = map atom_info (full_atom_list ?s1) @ replicated ?s1 cs"
    "ids_sequential ?s1 \<longrightarrow> ids_sequential s'"
    by blast
  have eq: "replicated ?s1 cs = replicated s cs"
    using r by (simp add: replicated_def same_setup_def)
  show ?case
    using step s' r eq by (auto simp: replicated_def same_setup_def)
qed

lemma length_replicated: "length (replicated s cs) = length cs * length (base_point_list s)"
  by (induction cs) (simp_all add: replicated_def)

lemma new_lattice_ids: "ids_sequential (new_lattice cell sz scale dang symm prun)"
  by (simp add: ids_sequential_def new_lattice_def)

text \<open>
  Claim C8. With dangling disabled, Phase 1 creates exactly \<open>nx * ny * nz * p\<close> atoms
  for a template of \<open>p\<close> points: cell by cell in the order of the cell list, one atom per
  template point, at the cell's origin plus the point's (scaled) coordinates, tagged with
  the point's id and the cell index, and numbered 1, 2, ... in this order.
\<close>

theorem phase1_replication:
  "\<exists>s1. phase1 (new_lattice cell (nx, ny, nz) scale False symm prun) = Inr (s1, [])
      \<and> length (full_atom_list s1) = nat nx * nat ny * nat nz * length (points cell)
      \<and> map atom_info (full_atom_list s1)
          = concat (map (\<lambda>c. map (\<lambda>p. (add_vec (cell_times c (scale_vec (dims cell) scale)) (coords p),
                                          Some (point_id p), Some c))
                                (scale_points (points cell) scale))
                      (cells_of (nx, ny, nz)))
      \<and> map atom_id (full_atom_list s1) = map int [1..<Suc (length (full_atom_list s1))]"
proof -
  let ?s0 = "new_lattice cell (nx, ny, nz) scale False symm prun"
  have nd: "\<not> dangling ?s0" by (simp add: new_lattice_def)
  from phase1_cells_plain [OF nd, of "cells_of (nx, ny, nz)" "[]"] obtain s1 where s1:
    "for_each phase1_cell (cells_of (nx, ny, nz)) (?s0, []) = Inr (s1, [])"
    "map atom_info (full_atom_list s1) = map atom_info (full_atom_list ?s0) @ replicated ?s0 (cells_of (nx, ny, nz))"
    "ids_sequential ?s0 \<longrightarrow> ids_sequential s1"
    by blast
  have a: "phase1 ?s0 = Inr (s1, [])"
    using s1(1) by (simp add: phase1_def new_lattice_def)
  have b: "map atom_info (full_atom_list s1) = replicated ?s0 (cells_of (nx, ny, nz))"
    using s1(2) by (simp add: new_lattice_def)
  have "length (map atom_info (full_atom_list s1)) = length (cells_of (nx, ny, nz)) * length (base_point_list ?s0)"
    unfolding b by (rule length_replicated)
  then have c: "length (full_atom_list s1) = nat nx * nat ny * nat nz * length (points cell)"
    by (simp add: length_cells_of new_lattice_def scale_points_def)
  have d: "map atom_id (full_atom_list s1) = map int [1..<Suc (length (full_atom_list s1))]"
    using s1(3) new_lattice_ids by (simp add: ids_sequential_def)
  from b have e: "map atom_info (full_atom_list s1)
          = concat (map (\<lambda>c. map (\<lambda>p. (add_vec (cell_times c (scale_vec (dims cell) scale)) (coords p),
                                          Some (point_id p), Some c))
                                (scale_points (points cell) scale))
                      (cells_of (nx, ny, nz)))"
    by (simp add: replicated_def new_lattice_def)
  from a c d e show ?thesis by blast
qed

theorem phase1_replication_witness:
  "\<exists>s1. phase1 (new_lattice
            \<lparr>points = [\<lparr>point_id = 1, coords = (0, 0, 0)\<rparr>,
                       \<lparr>point_id = 2, coords = (1 / 2, 1 / 2, 1 / 2)\<rparr>],
             connections = [\<lparr>origin = 1, partner = 2, cell_crossings = (0, 0, 0)\<rparr>],
             dims = (1, 1, 1)\<rparr> (2, 1, 1) 1 False True False) = Inr (s1, [])
      \<and> length (full_atom_list s1) = 4
      \<and> map atom_info (full_atom_list s1)
          = [((0, 0, 0), Some 1, Some (0, 0, 0)), ((1 / 2, 1 / 2, 1 / 2), Some 2, Some (0, 0, 0)),
             ((1, 0, 0), Some 1, Some (1, 0, 0)), ((3 / 2, 1 / 2, 1 / 2), Some 2, Some (1, 0, 0))]"
  using phase1_replication
      [of "\<lparr>points = [\<lparr>point_id = 1, coords = (0, 0, 0)\<rparr>,
                      \<lparr>point_id = 2, coords = (1 / 2, 1 / 2, 1 / 2)\<rparr>],
            connections = [\<lparr>origin = 1, partner = 2, cell_crossings = (0, 0, 0)\<rparr>],
            dims = (1, 1, 1)\<rparr>" 2 1 1 1 True False]
  by (auto simp: cells_of_def product3_def py_range_def scale_points_def scale_vec_def
        add_vec_def cell_times_def upt_rec)

section \<open>Invariants of Phase 1 and Phase 2\<close>

lemma create_atom_unbonded: "unbonded s \<Longrightarrow> unbonded (snd (create_atom pos pt oc s))"
  by (simp add: create_atom_def Let_def unbonded_def)

lemma phase1_ok_refl [simp]: "phase1_ok s s"
  by (simp add: phase1_ok_def)

lemma phase1_ok_trans: "phase1_ok s s1 \<Longrightarrow> phase1_ok s1 s2 \<Longrightarrow> phase1_ok s s2"
  by (auto simp: phase1_ok_def same_setup_def)

lemma create_atom_ok: "phase1_ok s (snd (create_atom pos pt oc s))"
  by (simp add: phase1_ok_def create_atom_ids create_atom_unbonded)

lemma replicate_fold_ok: "phase1_ok s (fold (replicate_point c) pts s)"
proof (induction pts arbitrary: s)
  case Nil
  show ?case by simp
next
  case (Cons p pts)
  have "phase1_ok s (replicate_point c p s)"
    by (simp add: replicate_point_def create_atom_ok)
  with Cons.IH [of "replicate_point c p s"] show ?case
    by (auto intro: phase1_ok_trans)
qed

lemma boundary_atom_ok: "boundary_atom pid cell s = Inr s' \<Longrightarrow> phase1_ok s s'"
  by (auto simp: boundary_atom_def create_atom_ok split: option.splits)

lemma dangling_connection_ok:
  "dangling_connection c conn (s, m) = Inr (s', m') \<Longrightarrow> phase1_ok s s'"
  by (auto simp: dangling_connection_def Let_def split: if_splits sum.splits
        dest!: boundary_atom_ok intro: phase1_ok_trans)

lemma dangling_loop_ok:
  "for_each (dangling_connection c) conns (s, m) = Inr (s', m') \<Longrightarrow> phase1_ok s s'"
proof -
  assume a: "for_each (dangling_connection c) conns (s, m) = Inr (s', m')"
  have "phase1_ok s (fst (s', m'))"
    by (rule for_each_invariant [OF a, where P = "\<lambda>x. phase1_ok s (fst x)"])
      (auto dest!: dangling_connection_ok elim: phase1_ok_trans)
  then show ?thesis by simp
qed

lemma phase1_cell_ok: "phase1_cell c (s, m) = Inr (s', m') \<Longrightarrow> phase1_ok s s'"
  using replicate_fold_ok [of s c "base_point_list s"]
  by (auto simp: phase1_cell_def Let_def split: if_splits dest!: dangling_loop_ok
        intro: phase1_ok_trans)

lemma phase1_ok: "phase1 s = Inr (s', m) \<Longrightarrow> phase1_ok s s'"
proof -
  assume a: "phase1 s = Inr (s', m)"
  then have b: "for_each phase1_cell (cells_of (lattice_size s)) (s, []) = Inr (s', m)"
    by (simp add: phase1_def)
  have "phase1_ok s (fst (s', m))"
    by (rule for_each_invariant [OF b, where P = "\<lambda>x. phase1_ok s (fst x)"])
      (auto dest!: phase1_cell_ok elim: phase1_ok_trans)
  then show ?thesis by simp
qed

text \<open>The atoms of the list are pairwise distinct, by their ids.\<close>

lemma ids_sequential_distinct: "ids_sequential s \<Longrightarrow> distinct (full_atom_list s)"
proof -
  assume "ids_sequential s"
  then have "map atom_id (full_atom_list s) = map int [1..<Suc (length (full_atom_list s))]"
    by (simp add: ids_sequential_def)
  moreover have "distinct (map int [1..<Suc (length (full_atom_list s))])"
    by (simp add: distinct_map)
  ultimately have "distinct (map atom_id (full_atom_list s))" by simp
  then show ?thesis by (simp add: distinct_map)
qed

lemma new_lattice_unbonded: "unbonded (new_lattice cell sz scale dang symm prun)"
  by (simp add: unbonded_def new_lattice_def)

lemma references_append:
  "references (vl @ [(a, b)]) x = references vl x + (if a = x then 1 else 0) + (if b = x then 1 else 0)"
  by (simp add: references_def)

lemma resolve_connection_inv:
  assumes "phase2_inv s"
  shows "phase2_inv (resolve_connection c conn s)
         \<and> full_atom_list (resolve_connection c conn s) = full_atom_list s
         \<and> same_setup s (resolve_connection c conn s)"
proof -
  have "a \<in> set xs" if "find P xs = Some a" for P a and xs :: "atom list"
    using that by (auto simp: find_Some_iff)
  with assms show ?thesis
    by (auto simp: resolve_connection_def phase2_inv_def endpoints_listed_def Let_def references_append
          same_setup_def split: option.splits)
qed

lemma phase2_cell_inv:
  assumes "phase2_inv s"
  shows "phase2_inv (phase2_cell m c s)
         \<and> full_atom_list (phase2_cell m c s) = full_atom_list s
         \<and> same_setup s (phase2_cell m c s)"
  unfolding phase2_cell_def
proof (rule fold_invariant [where P = "\<lambda>s'. phase2_inv s' \<and> full_atom_list s' = full_atom_list s \<and> same_setup s s'"])
  show "phase2_inv s \<and> full_atom_list s = full_atom_list s \<and> same_setup s s"
    using assms by simp
next
  fix x s'
  assume "phase2_inv s' \<and> full_atom_list s' = full_atom_list s \<and> same_setup s s'"
  with resolve_connection_inv [of s' c x]
  show "phase2_inv (resolve_connection c x s')
        \<and> full_atom_list (resolve_connection c x s') = full_atom_list s
        \<and> same_setup s (resolve_connection c x s')"
    by (auto elim: same_setup_trans)
qed

lemma phase2_inv:
  assumes "phase2_inv s"
  shows "phase2_inv (phase2 m s)
         \<and> full_atom_list (phase2 m s) = full_atom_list s
         \<and> same_setup s (phase2 m s)"
  unfolding phase2_def
proof (rule fold_invariant [where P = "\<lambda>s'. phase2_inv s' \<and> full_atom_list s' = full_atom_list s \<and> same_setup s s'"])
  show "phase2_inv s \<and> full_atom_list s = full_atom_list s \<and> same_setup s s"
    using assms by simp
next
  fix x s'
  assume "phase2_inv s' \<and> full_atom_list s' = full_atom_list s \<and> same_setup s s'"
  with phase2_cell_inv [of s' m x]
  show "phase2_inv (phase2_cell m x s')
        \<and> full_atom_list (phase2_cell m x s') = full_atom_list s
        \<and> same_setup s (phase2_cell m x s')"
    by (auto elim: same_setup_trans)
qed

lemma phase1_phase2_inv:
  assumes "phase1 (new_lattice cell sz scale dang symm prun) = Inr (s1, m)"
  shows "phase2_inv (phase2 m s1)"
proof -
  from phase1_ok [OF assms] have "ids_sequential s1" "unbonded s1"
    by (simp_all add: phase1_ok_def new_lattice_ids new_lattice_unbonded)
  then have "phase2_inv s1"
    by (simp add: phase2_inv_def endpoints_listed_def unbonded_def references_def ids_sequential_distinct)
  then show ?thesis by (simp add: phase2_inv)
qed

lemma sum_list_indicator:
  "distinct xs \<Longrightarrow> y \<in> set xs \<Longrightarrow> sum_list (map (\<lambda>a. if y = a then 1 else 0) xs) = (1::nat)"
  by (induction xs) auto

lemma sum_list_filter_lengths:
  "distinct xs \<Longrightarrow> \<forall>c \<in> set vl. f c \<in> set xs \<Longrightarrow>
     sum_list (map (\<lambda>a. length (filter (\<lambda>c. f c = a) vl)) xs) = length vl"
proof (induction vl)
  case Nil
  then show ?case by simp
next
  case (Cons c vl)
  have "sum_list (map (\<lambda>a. length (filter (\<lambda>c. f c = a) (c # vl))) xs)
      = sum_list (map (\<lambda>a. (if f c = a then 1 else 0) + length (filter (\<lambda>c. f c = a) vl)) xs)"
    by (rule arg_cong [where f = sum_list]) auto
  also have "\<dots> = sum_list (map (\<lambda>a. if f c = a then 1 else 0) xs)
                  + sum_list (map (\<lambda>a. length (filter (\<lambda>c. f c = a) vl)) xs)"
    by (simp add: sum_list_addf)
  also have "\<dots> = 1 + length vl"
    using Cons by (simp add: sum_list_indicator)
  finally show ?case by simp
qed

lemma sum_list_references:
  assumes "endpoints_listed s"
  shows "sum_list (map (references (vector_list s)) (full_atom_list s)) = 2 * length (vector_list s)"
proof -
  from assms have d: "distinct (full_atom_list s)"
    and f: "\<forall>c \<in> set (vector_list s). fst c \<in> set (full_atom_list s)"
    and g: "\<forall>c \<in> set (vector_list s). snd c \<in> set (full_atom_list s)"
    by (auto simp: endpoints_listed_def)
  have "sum_list (map (references (vector_list s)) (full_atom_list s))
      = sum_list (map (\<lambda>a. length (filter (\<lambda>c. fst c = a) (vector_list s))) (full_atom_list s))
        + sum_list (map (\<lambda>a. length (filter (\<lambda>c. snd c = a) (vector_list s))) (full_atom_list s))"
    unfolding references_def by (simp add: sum_list_addf)
  also have "\<dots> = length (vector_list s) + length (vector_list s)"
    using sum_list_filter_lengths [OF d f] sum_list_filter_lengths [OF d g] by simp
  finally show ?thesis by simp
qed

lemma sum_list_bonds:
  assumes "endpoints_listed s" "degrees_linked s"
  shows "sum_list (map (bonds s) (full_atom_list s)) = 2 * int (length (vector_list s))"
proof -
  have "sum_list (map g xs) = int (sum_list (map f xs))" if "\<forall>a \<in> set xs. g a = int (f a)"
    for g f and xs :: "atom list"
    using that by (induction xs) auto
  with assms(2) have "sum_list (map (bonds s) (full_atom_list s))
      = int (sum_list (map (references (vector_list s)) (full_atom_list s)))"
    by (simp add: degrees_linked_def)
  with sum_list_references [OF assms(1)] show ?thesis by simp
qed

text \<open>
  Claim C3. After Phase 2 and before pruning, the \<^verbatim>\<open>bonds\<close> counters of the atoms in the
  full atom list add up to twice the number of vector-pairs in the vector list.
\<close>

theorem degree_sum_after_phase2:
  assumes "phase1 (new_lattice cell sz scale dang symm prun) = Inr (s1, m)"
  shows "sum_list (map (bonds (phase2 m s1)) (full_atom_list (phase2 m s1)))
           = 2 * int (length (vector_list (phase2 m s1)))"
proof -
  from phase1_phase2_inv [OF assms] have "endpoints_listed (phase2 m s1)" "degrees_linked (phase2 m s1)"
    by (simp_all add: phase2_inv_def degrees_linked_def)
  then show ?thesis by (rule sum_list_bonds)
qed

section \<open>Pruning\<close>

lemma length_filter_remove1:
  "c \<in> set vl \<Longrightarrow>
     length (filter P vl) = length (filter P (remove1 c vl)) + (if P c then 1 else 0)"
  by (induction vl) auto

lemma references_remove1:
  "c \<in> set vl \<Longrightarrow>
     references vl a = references (remove1 c vl) a
        + (if fst c = a then 1 else 0) + (if snd c = a then 1 else 0)"
  using length_filter_remove1 [of c vl "\<lambda>c. fst c = a"]
    length_filter_remove1 [of c vl "\<lambda>c. snd c = a"]
  by (simp add: references_def)

lemma references_zero:
  "references vl d = 0 \<longleftrightarrow> (\<forall>c \<in> set vl. fst c \<noteq> d \<and> snd c \<noteq> d)"
  by (auto simp: references_def filter_empty_conv)

lemma prune_inv_nonnegative: "prune_inv (p, s) \<Longrightarrow> degrees_nonnegative s"
proof (cases p)
  case Scan
  assume "prune_inv (p, s)"
  with Scan show ?thesis by (simp add: degrees_linked_def degrees_nonnegative_def)
next
  case (Iterating d i)
  assume "prune_inv (p, s)"
  with Iterating have "bonds s d = 1"
    and "\<forall>a \<in> set (full_atom_list s). a \<noteq> d \<longrightarrow> bonds s a = int (references (vector_list s) a)"
    by simp_all
  then show ?thesis
    unfolding degrees_nonnegative_def by (metis of_nat_0_le_iff zero_le_one)
qed

text \<open>One round of the for loop, under the invariant.\<close>

lemma prune_connection_inv:
  assumes inv: "prune_inv (Iterating d i, s)" and i: "i < length (vector_list s)"
  shows "\<exists>s1 s'. test_origin d (vector_list s ! i) s = Inr s1 \<and> degrees_nonnegative s1
           \<and> test_partner d (vector_list s ! i) s1 = Inr s'
           \<and> prune_inv (Iterating d (Suc i), s')"
proof -
  let ?vl = "vector_list s" and ?c = "vector_list s ! i"
  have mem: "?c \<in> set ?vl" using i by simp
  note rr = references_remove1 [OF mem]
  from inv have el: "endpoints_listed s" and dl: "d \<in> set (full_atom_list s)" and bd: "bonds s d = 1"
    and others: "\<forall>a \<in> set (full_atom_list s). a \<noteq> d \<longrightarrow> bonds s a = int (references ?vl a)"
    and refs: "references ?vl d = 0 \<or> references ?vl d = 1
             \<and> (\<forall>j < i. j < length ?vl \<longrightarrow> fst (?vl ! j) \<noteq> d \<and> snd (?vl ! j) \<noteq> d)"
    by simp_all
  from el mem have ends: "fst ?c \<in> set (full_atom_list s)" "snd ?c \<in> set (full_atom_list s)"
    by (auto simp: endpoints_listed_def)
  consider (miss) "fst ?c \<noteq> d" "snd ?c \<noteq> d"
    | (origin) "fst ?c = d" | (partner) "fst ?c \<noteq> d" "snd ?c = d"
    by blast
  then show ?thesis
  proof cases
    case miss
    have "prune_inv (Iterating d (Suc i), s)"
      using inv miss by (auto simp: less_Suc_eq)
    moreover have "degrees_nonnegative s" using inv by (rule prune_inv_nonnegative)
    ultimately show ?thesis
      using miss by (simp add: test_origin_def test_partner_def)
  next
    case origin
    with mem refs have one: "references ?vl d = 1"
      by (auto simp: references_zero)
    with rr [of d] origin have x: "snd ?c \<noteq> d" and zero: "references (remove1 ?c ?vl) d = 0"
      by (auto split: if_splits)
    let ?s1 = "s\<lparr>bonds := (bonds s)(snd ?c := bonds s (snd ?c) - 1),
                  vector_list := remove1 ?c ?vl\<rparr>"
    have t1: "test_origin d ?c s = Inr ?s1"
      using origin mem by (simp add: test_origin_def remove_connection_def decrement_bonds_def)
    have t2: "test_partner d ?c ?s1 = Inr ?s1"
      using x by (simp add: test_partner_def)
    have "endpoints_listed ?s1"
      using el by (auto simp: endpoints_listed_def dest: notin_set_remove1)
    moreover have "\<forall>a \<in> set (full_atom_list ?s1). a \<noteq> d \<longrightarrow> bonds ?s1 a = int (references (vector_list ?s1) a)"
    proof (intro ballI impI)
      fix a assume a: "a \<in> set (full_atom_list ?s1)" "a \<noteq> d"
      then have "bonds s a = int (references ?vl a)" using others by simp
      with rr [of a] origin a(2) show "bonds ?s1 a = int (references (vector_list ?s1) a)"
        by auto
    qed
    ultimately have "prune_inv (Iterating d (Suc i), ?s1)"
      using dl bd x zero by simp
    moreover from this have "degrees_nonnegative ?s1" by (rule prune_inv_nonnegative)
    ultimately show ?thesis using t1 t2 by blast
  next
    case partner
    with mem refs have one: "references ?vl d = 1"
      by (auto simp: references_zero)
    with rr [of d] partner have zero: "references (remove1 ?c ?vl) d = 0"
      by (auto split: if_splits)
    let ?s1 = "s\<lparr>bonds := (bonds s)(fst ?c := bonds s (fst ?c) - 1),
                  vector_list := remove1 ?c ?vl\<rparr>"
    have t1: "test_origin d ?c s = Inr s"
      using partner by (simp add: test_origin_def)
    have t2: "test_partner d ?c s = Inr ?s1"
      using partner mem by (simp add: test_partner_def remove_connection_def decrement_bonds_def)
    have "endpoints_listed ?s1"
      using el by (auto simp: endpoints_listed_def dest: notin_set_remove1)
    moreover have "\<forall>a \<in> set (full_atom_list ?s1). a \<noteq> d \<longrightarrow> bonds ?s1 a = int (references (vector_list ?s1) a)"
    proof (intro ballI impI)
      fix a assume a: "a \<in> set (full_atom_list ?s1)" "a \<noteq> d"
      then have "bonds s a = int (references ?vl a)" using others by simp
      with rr [of a] partner a(2) show "bonds ?s1 a = int (references (vector_list ?s1) a)"
        by auto
    qed
    ultimately have "prune_inv (Iterating d (Suc i), ?s1)"
      using dl bd partner zero by simp
    moreover have "degrees_nonnegative s" using inv by (rule prune_inv_nonnegative)
    ultimately show ?thesis using t1 t2 by blast
  qed
qed

lemma prune_next_inv:
  assumes "prune_inv cfg"
  shows "prune_next cfg = None \<or> (\<exists>cfg'. prune_next cfg = Some (Inr cfg') \<and> prune_inv cfg')"
proof -
  obtain p s where cfg: "cfg = (p, s)" by (cases cfg)
  show ?thesis
  proof (cases p)
    case Scan
    show ?thesis
    proof (cases "find (\<lambda>atom. bonds s atom = 1) (full_atom_list s)")
      case None
      with cfg Scan show ?thesis by simp
    next
      case (Some d)
      then have d: "d \<in> set (full_atom_list s)" "bonds s d = 1"
        by (auto simp: find_Some_iff)
      with assms cfg Scan have "references (vector_list s) d = 1"
        by (simp add: degrees_linked_def)
      with assms cfg Scan d have "prune_inv (Iterating d 0, s)"
        by (simp add: degrees_linked_def)
      with cfg Scan Some show ?thesis by simp
    qed
  next
    case (Iterating d i)
    show ?thesis
    proof (cases "i < length (vector_list s)")
      case True
      from prune_connection_inv [OF assms [unfolded cfg Iterating] True]
      show ?thesis using cfg Iterating True by (auto simp: prune_connection_def)
    next
      case False
      from assms cfg Iterating have el: "endpoints_listed s" and dl: "d \<in> set (full_atom_list s)"
        and others: "\<forall>a \<in> set (full_atom_list s). a \<noteq> d \<longrightarrow> bonds s a = int (references (vector_list s) a)"
        and refs: "references (vector_list s) d = 0 \<or> references (vector_list s) d = 1
             \<and> (\<forall>j < i. j < length (vector_list s)
                   \<longrightarrow> fst (vector_list s ! j) \<noteq> d \<and> snd (vector_list s ! j) \<noteq> d)"
        by simp_all
      have zero: "references (vector_list s) d = 0"
      proof (rule ccontr)
        assume nz: "references (vector_list s) d \<noteq> 0"
        with refs have "\<forall>j < length (vector_list s). fst (vector_list s ! j) \<noteq> d \<and> snd (vector_list s ! j) \<noteq> d"
          using False by auto
        then have "\<forall>c \<in> set (vector_list s). fst c \<noteq> d \<and> snd c \<noteq> d"
          by (metis in_set_conv_nth)
        with nz show False by (simp add: references_zero)
      qed
      let ?s' = "s\<lparr>full_atom_list := remove1 d (full_atom_list s)\<rparr>"
      from el have dist: "distinct (full_atom_list s)" by (simp add: endpoints_listed_def)
      have "endpoints_listed ?s'"
        using el zero dist by (auto simp: endpoints_listed_def references_zero)
      moreover have "degrees_linked ?s'"
        using others dist by (auto simp: degrees_linked_def)
      ultimately have "prune_inv (Scan, ?s')" by simp
      with cfg Iterating False dl show ?thesis by simp
    qed
  qed
qed

lemma prune_reaches_inv:
  "prune_reaches cfg0 cfg \<Longrightarrow> prune_inv cfg0 \<Longrightarrow> prune_inv cfg"
proof (induction rule: prune_reaches.induct)
  case start
  then show ?case by simp
next
  case (step cfg1 cfg2)
  then have "prune_inv cfg1" by simp
  with prune_next_inv [of cfg1] step.hyps(2) show ?case by auto
qed

lemma prune_reaches_trans:
  "prune_reaches cfg1 cfg2 \<Longrightarrow> prune_reaches cfg0 cfg1 \<Longrightarrow> prune_reaches cfg0 cfg2"
  by (induction rule: prune_reaches.induct) (auto intro: prune_reaches.step)

lemma prune_run_inv:
  "prune_inv cfg \<Longrightarrow>
     \<exists>s'. prune_run cfg = Inr s' \<and> prune_inv (Scan, s') \<and> prune_reaches cfg (Scan, s')
          \<and> find (\<lambda>atom. bonds s' atom = 1) (full_atom_list s') = None"
proof (induction cfg rule: prune_run.induct)
  case (1 cfg)
  from prune_next_inv [OF "1.prems"] show ?case
  proof
    assume none: "prune_next cfg = None"
    obtain p s where cfg: "cfg = (p, s)" by (cases cfg)
    with none have p: "p = Scan" and f: "find (\<lambda>atom. bonds s atom = 1) (full_atom_list s) = None"
      by (cases p; auto split: option.splits if_splits sum.splits)+
    have "prune_run cfg = Inr s"
      using none cfg by (simp add: prune_run.simps)
    with cfg p f "1.prems" show ?thesis
      by (auto intro: prune_reaches.start)
  next
    assume "\<exists>cfg'. prune_next cfg = Some (Inr cfg') \<and> prune_inv cfg'"
    then obtain cfg' where n: "prune_next cfg = Some (Inr cfg')" and i: "prune_inv cfg'" by blast
    from "1.IH" [OF n refl i] obtain s' where s': "prune_run cfg' = Inr s'" "prune_inv (Scan, s')"
      "prune_reaches cfg' (Scan, s')" "find (\<lambda>atom. bonds s' atom = 1) (full_atom_list s') = None"
      by blast
    have "prune_run cfg = Inr s'"
      using n s'(1) by (simp add: prune_run.simps [of cfg])
    moreover have "prune_reaches cfg (Scan, s')"
      using prune_reaches_trans [OF s'(3)] n by (blast intro: prune_reaches.intros)
    ultimately show ?thesis using s' by blast
  qed
qed

lemma phase2_prune_inv:
  assumes "phase1 (new_lattice cell sz scale dang symm prun) = Inr (s1, m)"
  shows "prune_inv (Scan, phase2 m s1)"
  using phase1_phase2_inv [OF assms] by (simp add: phase2_inv_def degrees_linked_def)

text \<open>
  Claim C2. Started on the state after Phase 2, the pruning loop of a build with prune
  enabled returns, and then every atom left in the full atom list has degree 0 or at
  least 2, none has degree 1. At every control point the loop passes, and between the two
  tests of a round of its \<^verbatim>\<open>for\<close> loop, no atom of the list has a negative degree.
\<close>

theorem pruning_terminal_degrees:
  assumes "phase1 (new_lattice cell sz scale dang symm True) = Inr (s1, m)"
  shows "(\<exists>s3. prune_vectors (phase2 m s1) = Inr s3
            \<and> (\<forall>a \<in> set (full_atom_list s3). bonds s3 a = 0 \<or> 2 \<le> bonds s3 a))
         \<and> (\<forall>p s. prune_reaches (Scan, phase2 m s1) (p, s) \<longrightarrow>
               degrees_nonnegative s
               \<and> (\<forall>d i s'. p = Iterating d i \<and> i < length (vector_list s)
                      \<and> test_origin d (vector_list s ! i) s = Inr s' \<longrightarrow> degrees_nonnegative s'))"
proof (intro conjI allI impI)
  note inv = phase2_prune_inv [OF assms]
  from prune_run_inv [OF inv] obtain s3 where s3: "prune_run (Scan, phase2 m s1) = Inr s3"
    "prune_inv (Scan, s3)" "find (\<lambda>atom. bonds s3 atom = 1) (full_atom_list s3) = None"
    by blast
  from s3(2) have nn: "degrees_nonnegative s3" by (rule prune_inv_nonnegative)
  have "\<forall>a \<in> set (full_atom_list s3). bonds s3 a = 0 \<or> 2 \<le> bonds s3 a"
  proof
    fix a assume a: "a \<in> set (full_atom_list s3)"
    with s3(3) have "bonds s3 a \<noteq> 1" by (auto simp: find_None_iff)
    moreover from nn a have "0 \<le> bonds s3 a" by (simp add: degrees_nonnegative_def)
    ultimately show "bonds s3 a = 0 \<or> 2 \<le> bonds s3 a" by linarith
  qed
  with s3(1) show "\<exists>s3. prune_vectors (phase2 m s1) = Inr s3
            \<and> (\<forall>a \<in> set (full_atom_list s3). bonds s3 a = 0 \<or> 2 \<le> bonds s3 a)"
    by (auto simp: prune_vectors_def)
next
  fix p s
  assume r: "prune_reaches (Scan, phase2 m s1) (p, s)"
  from prune_reaches_inv [OF r phase2_prune_inv [OF assms]] have inv: "prune_inv (p, s)" .
  then show "degrees_nonnegative s" by (rule prune_inv_nonnegative)
  fix d i s'
  assume "p = Iterating d i \<and> i < length (vector_list s) \<and> test_origin d (vector_list s ! i) s = Inr s'"
  with prune_connection_inv [of d i s] inv show "degrees_nonnegative s'" by auto
qed

text \<open>
  Claim C9. After Phase 2, and again each time the pruning loop is back at the head of
  \<^verbatim>\<open>while True\<close> (after each pruning step), the \<^verbatim>\<open>bonds\<close> counter of every atom in the
  full atom list is the number of times the vector list names the atom as origin or as
  partner.
\<close>

theorem degrees_linked_through_pruning:
  assumes "phase1 (new_lattice cell sz scale dang symm prun) = Inr (s1, m)"
  shows "degrees_linked (phase2 m s1)
         \<and> (\<forall>s. prune_reaches (Scan, phase2 m s1) (Scan, s) \<longrightarrow> degrees_linked s)"
proof (intro conjI allI impI)
  from phase2_prune_inv [OF assms] show "degrees_linked (phase2 m s1)" by simp
next
  fix s assume "prune_reaches (Scan, phase2 m s1) (Scan, s)"
  from prune_reaches_inv [OF this phase2_prune_inv [OF assms]] show "degrees_linked s" by simp
qed

section \<open>Worked examples\<close>

lemmas eval_defs = Lattice_init_def build_lists_def phase1_def phase1_cell_def phase2_def
  phase2_cell_def new_lattice_def cells_of_def product3_def py_range_def replicate_point_def
  create_atom_def scale_points_def scale_vec_def add_vec_def subtract_vec_def cell_times_def
  add_cell_def subtract_cell_def negate_cell_def Let_def resolve_connection_def
  boundary_atom_def dangling_connection_def prune_vectors_def prune_connection_def
  test_origin_def test_partner_def remove_connection_def decrement_bonds_def
  populate_vector_def populate_iteration_def length_two_def prune_run.simps upt_conv_Cons

text \<open>
  The crossing template on two cells, with dangling and symmetric enabled: six atoms (two
  per cell, one boundary atom before and one beyond the grid), three vector-pairs, every
  atom of degree 1; pruning removes the three origins and all three vector-pairs.
\<close>

lemma crossing_phase2:
  "\<exists>s1 m. phase1 (new_lattice crossing_template (2, 1, 1) 1 True True True) = Inr (s1, m)
      \<and> length (full_atom_list (phase2 m s1)) = 6 \<and> length (vector_list (phase2 m s1)) = 3
      \<and> map (bonds (phase2 m s1)) (full_atom_list (phase2 m s1)) = [1, 1, 1, 1, 1, 1]"
  by (simp add: crossing_template_def eval_defs)

lemma crossing_prune:
  "\<exists>s1 m s3. phase1 (new_lattice crossing_template (2, 1, 1) 1 True True True) = Inr (s1, m)
      \<and> prune_vectors (phase2 m s1) = Inr s3 \<and> map atom_id (full_atom_list s3) = [3, 5, 6]
      \<and> map (bonds s3) (full_atom_list s3) = [0, 0, 0] \<and> vector_list s3 = []"
  by (simp add: crossing_template_def eval_defs)

theorem degree_sum_after_phase2_witness:
  "\<exists>s1 m. phase1 (new_lattice crossing_template (2, 1, 1) 1 True True True) = Inr (s1, m)
      \<and> sum_list (map (bonds (phase2 m s1)) (full_atom_list (phase2 m s1))) = 6
      \<and> length (vector_list (phase2 m s1)) = 3"
proof -
  from crossing_phase2 obtain s1 m where
    h: "phase1 (new_lattice crossing_template (2, 1, 1) 1 True True True) = Inr (s1, m)"
    and l: "length (vector_list (phase2 m s1)) = 3" by blast
  from degree_sum_after_phase2 [OF h] l h show ?thesis by auto
qed

theorem pruning_terminal_degrees_witness:
  "\<exists>s1 m s3. phase1 (new_lattice crossing_template (2, 1, 1) 1 True True True) = Inr (s1, m)
      \<and> prune_vectors (phase2 m s1) = Inr s3
      \<and> list_all (\<lambda>a. bonds s3 a = 0 \<or> 2 \<le> bonds s3 a) (full_atom_list s3)
      \<and> degrees_nonnegative (phase2 m s1)"
proof -
  from crossing_phase2 obtain s1 m where
    h: "phase1 (new_lattice crossing_template (2, 1, 1) 1 True True True) = Inr (s1, m)"
    by blast
  from pruning_terminal_degrees [OF h] prune_reaches.start [of "(Scan, phase2 m s1)"] h
  show ?thesis by (auto simp: list_all_iff)
qed

theorem degrees_linked_through_pruning_witness:
  "\<exists>s1 m. phase1 (new_lattice crossing_template (2, 1, 1) 1 True True True) = Inr (s1, m)
      \<and> degrees_linked (phase2 m s1)"
proof -
  from crossing_phase2 obtain s1 m where
    h: "phase1 (new_lattice crossing_template (2, 1, 1) 1 True True True) = Inr (s1, m)"
    by blast
  from degrees_linked_through_pruning [OF h] h show ?thesis by blast
qed

section \<open>The prune flag\<close>

lemma for_each_commute:
  "(\<And>x s. f x (g s) = map_sum id g (f x s)) \<Longrightarrow>
     for_each f xs (g s) = map_sum id g (for_each f xs s)"
  by (induction xs arbitrary: s) (auto split: sum.splits)

lemma fold_commute_apply:
  "(\<And>x s. f x (g s) = g (f x s)) \<Longrightarrow> fold f xs (g s) = g (fold f xs s)"
  by (induction xs arbitrary: s) auto

lemma create_atom_prune:
  "create_atom pos pt oc (s\<lparr>prune := b\<rparr>)
     = (fst (create_atom pos pt oc s), (snd (create_atom pos pt oc s))\<lparr>prune := b\<rparr>)"
  by (simp add: create_atom_def Let_def)

lemma replicate_point_prune:
  "replicate_point c p (s\<lparr>prune := b\<rparr>) = (replicate_point c p s)\<lparr>prune := b\<rparr>"
  by (simp add: replicate_point_def create_atom_prune)

lemma boundary_atom_prune:
  "boundary_atom pid c (s\<lparr>prune := b\<rparr>)
     = map_sum id (\<lambda>s. s\<lparr>prune := b\<rparr>) (boundary_atom pid c s)"
  by (simp add: boundary_atom_def create_atom_prune split: option.splits)

lemma dangling_connection_prune:
  "dangling_connection c conn (apfst (\<lambda>s. s\<lparr>prune := b\<rparr>) sm)
     = map_sum id (apfst (\<lambda>s. s\<lparr>prune := b\<rparr>)) (dangling_connection c conn sm)"
proof -
  have sym: "symmetric s' = symmetric s"
    if "boundary_atom pid tc s = Inr s'" for pid tc s s'
    using boundary_atom_ok [OF that] by (simp add: phase1_ok_def same_setup_def)
  have sz: "lattice_size s' = lattice_size s"
    if "boundary_atom pid tc s = Inr s'" for pid tc s s'
    using boundary_atom_ok [OF that] by (simp add: phase1_ok_def same_setup_def)
  obtain s m where sm: "sm = (s, m)" by (cases sm)
  show ?thesis
    unfolding sm
    by (cases "boundary_atom (partner conn) (add_cell c (cell_crossings conn)) s")
      (auto simp: dangling_connection_def Let_def boundary_atom_prune sym sz split: sum.splits)
qed

lemma phase1_cell_prune:
  "phase1_cell c (apfst (\<lambda>s. s\<lparr>prune := b\<rparr>) sm)
     = map_sum id (apfst (\<lambda>s. s\<lparr>prune := b\<rparr>)) (phase1_cell c sm)"
proof -
  obtain s m where sm: "sm = (s, m)" by (cases sm)
  have f: "fold (replicate_point c) pts (s\<lparr>prune := b\<rparr>) = (fold (replicate_point c) pts s)\<lparr>prune := b\<rparr>" for pts
    by (rule fold_commute_apply) (simp add: replicate_point_prune)
  have "for_each (dangling_connection c) conns (apfst (\<lambda>s. s\<lparr>prune := b\<rparr>) x)
      = map_sum id (apfst (\<lambda>s. s\<lparr>prune := b\<rparr>)) (for_each (dangling_connection c) conns x)" for conns x
    by (rule for_each_commute) (rule dangling_connection_prune)
  from this [of _ "(fold (replicate_point c) (base_point_list s) s, m)"] show ?thesis
    unfolding sm by (simp add: phase1_cell_def Let_def f)
qed

lemma phase1_prune:
  "phase1 (s\<lparr>prune := b\<rparr>) = map_sum id (apfst (\<lambda>s. s\<lparr>prune := b\<rparr>)) (phase1 s)"
proof -
  have "for_each phase1_cell cs (apfst (\<lambda>s. s\<lparr>prune := b\<rparr>) x)
      = map_sum id (apfst (\<lambda>s. s\<lparr>prune := b\<rparr>)) (for_each phase1_cell cs x)" for cs x
    by (rule for_each_commute) (rule phase1_cell_prune)
  from this [of _ "(s, [])"] show ?thesis by (simp add: phase1_def)
qed

lemma resolve_connection_prune:
  "resolve_connection c conn (s\<lparr>prune := b\<rparr>) = (resolve_connection c conn s)\<lparr>prune := b\<rparr>"
  by (simp add: resolve_connection_def Let_def split: option.splits)

lemma phase2_cell_prune:
  "phase2_cell m c (s\<lparr>prune := b\<rparr>) = (phase2_cell m c s)\<lparr>prune := b\<rparr>"
  unfolding phase2_cell_def
  using fold_commute_apply [of "resolve_connection c" "\<lambda>s. s\<lparr>prune := b\<rparr>"]
  by (simp add: resolve_connection_prune)

lemma phase2_prune: "phase2 m (s\<lparr>prune := b\<rparr>) = (phase2 m s)\<lparr>prune := b\<rparr>"
  unfolding phase2_def
  using fold_commute_apply [of "phase2_cell m" "\<lambda>s. s\<lparr>prune := b\<rparr>"]
  by (simp add: phase2_cell_prune)

lemma populate_iteration_prune:
  "populate_iteration atoms n step i (apfst (\<lambda>s. s\<lparr>prune := b\<rparr>) sa)
     = map_sum id (apfst (\<lambda>s. s\<lparr>prune := b\<rparr>)) (populate_iteration atoms n step i sa)"
  by (cases sa) (simp add: populate_iteration_def create_atom_def Let_def split: option.splits)

lemma populate_vector_prune:
  "populate_vector reading atoms (s\<lparr>prune := b\<rparr>)
     = map_sum id (\<lambda>s. s\<lparr>prune := b\<rparr>) (populate_vector reading atoms s)"
proof -
  have "for_each (populate_iteration atoms n step) is (apfst (\<lambda>s. s\<lparr>prune := b\<rparr>) x)
      = map_sum id (apfst (\<lambda>s. s\<lparr>prune := b\<rparr>)) (for_each (populate_iteration atoms n step) is x)"
    for n step "is" x
    by (rule for_each_commute) (rule populate_iteration_prune)
  from this [of _ _ _ "(s, None)"] show ?thesis
    by (simp add: populate_vector_def Let_def split: sum.splits prod.splits)
qed

lemma populate_all_prune:
  "for_each (populate_vector reading) vl (s\<lparr>prune := b\<rparr>)
     = map_sum id (\<lambda>s. s\<lparr>prune := b\<rparr>) (for_each (populate_vector reading) vl s)"
  by (rule for_each_commute) (rule populate_vector_prune)

lemma prune_vectors_no_dangler:
  "\<forall>a \<in> set (full_atom_list s). bonds s a \<noteq> 1 \<Longrightarrow> prune_vectors s = Inr s"
  by (simp add: prune_vectors_def prune_run.simps find_None_iff [THEN iffD2])

lemma phase1_phase2_setup:
  assumes "phase1 (new_lattice cell sz scale dang symm prun) = Inr (s1, m)"
  shows "same_setup s1 (phase2 m s1) \<and> full_atom_list (phase2 m s1) = full_atom_list s1"
proof -
  from phase1_ok [OF assms] have "ids_sequential s1" "unbonded s1"
    by (simp_all add: phase1_ok_def new_lattice_ids new_lattice_unbonded)
  then have "phase2_inv s1"
    by (simp add: phase2_inv_def endpoints_listed_def unbonded_def references_def
          ids_sequential_distinct)
  then show ?thesis by (simp add: phase2_inv)
qed

text \<open>
  Claim C4, as amended. The build prunes whenever \<^verbatim>\<open>prune\<close> is set, whatever \<^verbatim>\<open>dangling\<close>
  is. For every template, size, scale and value of \<^verbatim>\<open>dangling\<close> (in particular with
  dangling disabled), the outputs for prune=True and prune=False are identical provided
  that no atom has degree 1 after Phase 2.
\<close>

theorem prune_flag_without_leaves:
  assumes "\<forall>s1 m. phase1 (new_lattice cell sz scale dang symm False) = Inr (s1, m)
             \<longrightarrow> (\<forall>a \<in> set (full_atom_list (phase2 m s1)). bonds (phase2 m s1) a \<noteq> 1)"
  shows "map_sum id outputs (build_lists reading (new_lattice cell sz scale dang symm True))
           = map_sum id outputs (build_lists reading (new_lattice cell sz scale dang symm False))"
proof -
  let ?s0 = "new_lattice cell sz scale dang symm False"
  have new: "new_lattice cell sz scale dang symm True = ?s0\<lparr>prune := True\<rparr>"
    by (simp add: new_lattice_def)
  show ?thesis
  proof (cases "phase1 ?s0")
    case (Inl e)
    then show ?thesis by (simp add: build_lists_def new phase1_prune)
  next
    case (Inr sm)
    obtain s1 m where sm: "sm = (s1, m)" by (cases sm)
    let ?s2 = "phase2 m s1"
    from Inr sm assms have nd: "\<forall>a \<in> set (full_atom_list ?s2). bonds ?s2 a \<noteq> 1" by simp
    from phase1_ok [OF Inr [unfolded sm]] have "prune s1 = False"
      by (simp add: phase1_ok_def same_setup_def new_lattice_def)
    moreover have "same_setup s1 ?s2"
      using phase1_phase2_setup [OF Inr [unfolded sm]] by simp
    ultimately have np: "\<not> prune ?s2" by (simp add: same_setup_def)
    have pv: "prune_vectors (?s2\<lparr>prune := True\<rparr>) = Inr (?s2\<lparr>prune := True\<rparr>)"
      using nd by (intro prune_vectors_no_dangler) simp
    have a: "build_lists reading ?s0 = for_each (populate_vector reading) (vector_list ?s2) ?s2"
      using Inr sm np by (simp add: build_lists_def Let_def)
    have b: "build_lists reading (?s0\<lparr>prune := True\<rparr>)
               = map_sum id (\<lambda>s. s\<lparr>prune := True\<rparr>)
                   (for_each (populate_vector reading) (vector_list ?s2) ?s2)"
      using Inr sm pv
      by (simp add: build_lists_def Let_def phase1_prune phase2_prune populate_all_prune)
    show ?thesis
      unfolding new a b by (cases "for_each (populate_vector reading) (vector_list ?s2) ?s2")
        (simp_all add: outputs_def)
  qed
qed

text \<open>
  The claim as stated fails: with dangling disabled, the rod template on one cell gives
  three atoms and two bonds without pruning, and one atom and no bond with pruning.
\<close>

theorem prune_flag_counterexample:
  "map_sum id outputs (snd (Lattice_init length_two rod_template (1, 1, 1) 1 False True True))
     \<noteq> map_sum id outputs (snd (Lattice_init length_two rod_template (1, 1, 1) 1 False True False))"
proof -
  have "map_sum id outputs (snd (Lattice_init length_two rod_template (1, 1, 1) 1 False True True))
      = Inr ([\<lparr>atom_id = 2, position = (2, 0, 0), point_type = Some 2,
               owning_cell = Some (0, 0, 0)\<rparr>], [])"
    by (simp add: rod_template_def eval_defs outputs_def)
  moreover have "map_sum id outputs
      (snd (Lattice_init length_two rod_template (1, 1, 1) 1 False True False))
      = Inr ([\<lparr>atom_id = 1, position = (0, 0, 0), point_type = Some 1, owning_cell = Some (0, 0, 0)\<rparr>,
              \<lparr>atom_id = 2, position = (2, 0, 0), point_type = Some 2, owning_cell = Some (0, 0, 0)\<rparr>,
              \<lparr>atom_id = 3, position = (1, 0, 0), point_type = None, owning_cell = None\<rparr>],
             [\<lparr>bond_id = 1, point1 = 3, point2 = 1\<rparr>, \<lparr>bond_id = 2, point1 = 2, point2 = 3\<rparr>])"
    by (simp add: rod_template_def eval_defs outputs_def)
  ultimately show ?thesis by simp
qed

theorem prune_flag_without_leaves_witness:
  "map_sum id outputs (build_lists length_two (new_lattice ring_template (1, 1, 1) 1 False True True))
     = map_sum id outputs
         (build_lists length_two (new_lattice ring_template (1, 1, 1) 1 False True False))
   \<and> (\<exists>s1 m. phase1 (new_lattice ring_template (1, 1, 1) 1 False True False) = Inr (s1, m)
          \<and> map (bonds (phase2 m s1)) (full_atom_list (phase2 m s1)) = [2, 2])"
proof -
  have "\<forall>s1 m. phase1 (new_lattice ring_template (1, 1, 1) 1 False True False) = Inr (s1, m)
          \<longrightarrow> (\<forall>a \<in> set (full_atom_list (phase2 m s1)). bonds (phase2 m s1) a \<noteq> 1)"
    by (simp add: ring_template_def eval_defs)
  moreover have "\<exists>s1 m. phase1 (new_lattice ring_template (1, 1, 1) 1 False True False) = Inr (s1, m)
          \<and> map (bonds (phase2 m s1)) (full_atom_list (phase2 m s1)) = [2, 2]"
    by (simp add: ring_template_def eval_defs)
  ultimately show ?thesis
    using prune_flag_without_leaves [of ring_template "(1, 1, 1)" 1 False True length_two]
    by blast
qed

section \<open>Chain discretization\<close>








section \<open>Phase 1 with a connection across the +x face\<close>




























text \<open>A connection to a point id that the template does not have.\<close>

lemma dangling_reference_raises:
  "phase1 (new_lattice
      \<lparr>points = [\<lparr>point_id = 1, coords = (0, 0, 0)\<rparr>],
       connections = [\<lparr>origin = 1, partner = 2, cell_crossings = (1, 0, 0)\<rparr>],
       dims = (1, 1, 1)\<rparr> (1, 1, 1) 1 True True False) = Inl StopIteration"
  by (simp add: eval_defs)


end
